theory Spec2Isabelle
  imports Main
begin

section \<open>Data model\<close>

text \<open>
  The program is one function, \<^verbatim>\<open>merge_model_objects\<close> of
  \<^verbatim>\<open>django_merge_model_objects.py\<close>. It works on objects of an object-relational
  mapper: it reads their attributes, asks the mapper which records are related to an
  object, and issues \<^verbatim>\<open>save\<close>, \<^verbatim>\<open>delete\<close>, \<^verbatim>\<open>add\<close> and \<^verbatim>\<open>remove\<close> calls.

  A model object is its class and its attribute dictionary. Its key is the value of its
  attribute \<^verbatim>\<open>id\<close>, an integer, or \<^verbatim>\<open>None\<close> for an object that has no row. A
  reference to another record is the key of that record, held in a foreign-key field.
  Keys are taken from one global space.
\<close>

type_synonym cls = string
type_synonym oid = int
type_synonym addr = nat

datatype val = VNone | VStr string | VInt int

record obj =
  klass :: cls
  attrs :: "string \<rightharpoonup> val"

definition pk :: "obj \<Rightarrow> oid option" where
  "pk x = (case attrs x ''id'' of Some (VInt k) \<Rightarrow> Some k | _ \<Rightarrow> None)"

text \<open>
  A relation descriptor is what the loops of lines 61, 76 and 86 iterate over: the
  object that answers \<^verbatim>\<open>get_accessor_name()\<close> and \<^verbatim>\<open>.field.name\<close>. \<open>related_model\<close> is
  the model that declares the field, and \<open>hidden\<close> says that the mapper installs no
  attribute of the accessor's name on the target class. The accessor name is
  \<^verbatim>\<open>None\<close> for a symmetrical many-to-many relation of a model with itself, the special
  case of line 68.
\<close>

record related =
  accessor_name :: "string option"
  field_name :: string
  related_model :: cls
  hidden :: bool

definition symmetrical :: "related \<Rightarrow> bool" where
  "symmetrical d \<longleftrightarrow> accessor_name d = None"

text \<open>
  An element of \<^verbatim>\<open>_meta.local_fields\<close> is a field object of the mapper. The function
  reads its \<^verbatim>\<open>attname\<close> and tests \<^verbatim>\<open>isinstance(_, fields.AutoField)\<close>. A field
  object has no method \<^verbatim>\<open>get_accessor_name\<close>: that is a method of the relation
  descriptors.
\<close>

record local_field =
  attname :: string
  is_auto :: bool

datatype class_attr = GenericForeignKey string string | OtherAttr

text \<open>
  The metadata the function reads and does not change. \<open>foreign_keys\<close> gives, for a
  model, the names of its fields that hold a reference to another record (foreign keys
  and one-to-one fields), all with the mapper's default rule for deletion; the
  local fields of a class are those it declares itself, without the inherited ones. The
  three \<^verbatim>\<open>get_all_related_..._objects\<close> helpers are called by the function but are not
  defined in the file: they are parameters here.
\<close>

record orm =
  mro :: "cls \<Rightarrow> cls list"
  local_fields :: "cls \<Rightarrow> local_field list"
  foreign_keys :: "cls \<Rightarrow> string list"
  get_models :: "cls list"
  class_dict :: "cls \<Rightarrow> (string \<times> class_attr) list"
  get_all_related_many_to_many_objects :: "obj \<Rightarrow> related list"
  get_all_related_one_to_one_objects :: "obj \<Rightarrow> related list"
  get_all_related_one_to_many_objects :: "obj \<Rightarrow> related list"

datatype error = TypeError string | AttributeError string | ValueError string
  | AssertionError string

text \<open>
  The journal lists the persistence calls issued, in order. A many-to-many link
  \<open>(m, f, a, b)\<close> says that record \<open>b\<close> is in the collection \<open>f\<close> of record \<open>a\<close> of
  model \<open>m\<close>.
\<close>

datatype event = Saved oid | Deleted oid | Unlinked cls string oid oid | Linked cls string oid oid

type_synonym link = "cls \<times> string \<times> oid \<times> oid"

text \<open>
  \<open>rows\<close> and \<open>links\<close> are the database and \<open>next_id\<close> is the key it gives to the next
  row inserted without one. \<open>mem\<close> holds the objects of the caller in memory, by
  address: the primary object and the aliases are addresses, so that an alias can be
  the primary object itself, or be listed twice. A computation returns its result or the
  exception raised, together with the world at that point.
\<close>

record world =
  rows :: "obj list"
  links :: "link list"
  next_id :: oid
  journal :: "event list"
  mem :: "addr \<Rightarrow> obj"

type_synonym 'a comp = "world \<Rightarrow> (error + 'a) \<times> world"

definition ret :: "'a \<Rightarrow> 'a comp" where
  "ret x = (\<lambda>s. (Inr x, s))"

definition throw :: "error \<Rightarrow> 'a comp" where
  "throw e = (\<lambda>s. (Inl e, s))"

definition seq :: "'a comp \<Rightarrow> ('a \<Rightarrow> 'b comp) \<Rightarrow> 'b comp" where
  "seq c f = (\<lambda>s. case c s of (Inl e, s') \<Rightarrow> (Inl e, s') | (Inr x, s') \<Rightarrow> f x s')"

fun for_each :: "'a list \<Rightarrow> ('a \<Rightarrow> unit comp) \<Rightarrow> unit comp" where
  "for_each [] body = ret ()"
| "for_each (x # xs) body = seq (body x) (\<lambda>_. for_each xs body)"

section \<open>The mapper's operations\<close>

definition Model :: cls where
  "Model = ''Model''"

definition issubclass :: "orm \<Rightarrow> cls \<Rightarrow> cls \<Rightarrow> bool" where
  "issubclass m c d \<longleftrightarrow> d \<in> set (mro m c)"

definition isinstance :: "orm \<Rightarrow> obj \<Rightarrow> cls \<Rightarrow> bool" where
  "isinstance m x c \<longleftrightarrow> issubclass m (klass x) c"

definition getattr :: "obj \<Rightarrow> string \<Rightarrow> error + val" where
  "getattr x n = (case attrs x n of None \<Rightarrow> Inl (AttributeError n) | Some v \<Rightarrow> Inr v)"

definition setattr :: "obj \<Rightarrow> string \<Rightarrow> val \<Rightarrow> obj" where
  "setattr x n v = x\<lparr>attrs := (attrs x)(n \<mapsto> v)\<rparr>"

text \<open>\<^verbatim>\<open>val in [None, '']\<close>\<close>

definition blank :: "val \<Rightarrow> bool" where
  "blank v \<longleftrightarrow> v = VNone \<or> v = VStr []"

text \<open>
  \<^verbatim>\<open>save()\<close> of an object that has a key writes the object over the row of that key,
  or inserts it when there is none. An object without a key is inserted under the next
  key of the database, and the key is set on the object: the result is the object as it
  is after the call.
\<close>

definition save_row :: "oid \<Rightarrow> obj \<Rightarrow> obj list \<Rightarrow> obj list" where
  "save_row k x rs =
     (if Some k \<in> pk ` set rs then map (\<lambda>r. if pk r = Some k then x else r) rs else rs @ [x])"

definition save :: "obj \<Rightarrow> obj comp" where
  "save x = (\<lambda>s.
     case pk x of
       Some k \<Rightarrow> (Inr x, s\<lparr>rows := save_row k x (rows s), journal := journal s @ [Saved k]\<rparr>)
     | None \<Rightarrow>
         (Inr (setattr x ''id'' (VInt (next_id s))),
          s\<lparr>rows := rows s @ [setattr x ''id'' (VInt (next_id s))],
            next_id := next_id s + 1,
            journal := journal s @ [Saved (next_id s)]\<rparr>))"

text \<open>\<^verbatim>\<open>save()\<close> of an object of the caller.\<close>

definition save_object :: "addr \<Rightarrow> unit comp" where
  "save_object a = seq (\<lambda>s. save (mem s a) s) (\<lambda>x s. (Inr (), s\<lparr>mem := (mem s)(a := x)\<rparr>))"

text \<open>
  \<^verbatim>\<open>delete()\<close> collects the rows to delete before it deletes any: the row of the
  object, the rows that refer to it through a foreign key, those that refer to these,
  and so on. \<open>collect m rs ks\<close> adds to the keys \<open>ks\<close> those of the rows of \<open>rs\<close> that
  the deletion of \<open>ks\<close> reaches.
\<close>

definition refers_to :: "orm \<Rightarrow> oid list \<Rightarrow> obj \<Rightarrow> bool" where
  "refers_to m ks r \<longleftrightarrow>
     list_ex (\<lambda>f. case attrs r f of Some (VInt k) \<Rightarrow> k \<in> set ks | _ \<Rightarrow> False)
       (foreign_keys m (klass r))"

function collect :: "orm \<Rightarrow> obj list \<Rightarrow> oid list \<Rightarrow> oid list" where
  "collect m rs ks =
     (if \<not> list_ex (refers_to m ks) rs then ks
      else collect m (filter (\<lambda>r. \<not> refers_to m ks r) rs)
             (ks @ List.map_filter pk (filter (refers_to m ks) rs)))"
  by pat_completeness auto

termination
proof (relation "measure (\<lambda>(m, rs, ks). length rs)")
  show "wf (measure (\<lambda>(m, rs, ks). length rs))" by simp
next
  fix m :: orm and rs :: "obj list" and ks :: "oid list"
  assume "\<not> \<not> list_ex (refers_to m ks) rs"
  then have "filter (refers_to m ks) rs \<noteq> []"
    by (simp add: list_ex_iff filter_empty_conv)
  then have "0 < length (filter (refers_to m ks) rs)" by simp
  moreover have "length (filter (refers_to m ks) rs) + length (filter (\<lambda>r. \<not> refers_to m ks r) rs)
                   = length rs"
    by (rule sum_length_filter_compl)
  ultimately have "length (filter (\<lambda>r. \<not> refers_to m ks r) rs) < length rs"
    by linarith
  then show "((m, filter (\<lambda>r. \<not> refers_to m ks r) rs,
                ks @ List.map_filter pk (filter (refers_to m ks) rs)), (m, rs, ks))
              \<in> measure (\<lambda>(m, rs, ks). length rs)"
    by simp
qed

declare collect.simps [simp del]

text \<open>
  \<^verbatim>\<open>delete()\<close> of an object of the caller: an object without a key cannot be deleted;
  the rows collected go, and with them the many-to-many links from or to one of them;
  the key of the object in memory is set to \<^verbatim>\<open>None\<close>.
\<close>

definition has_key_in :: "oid list \<Rightarrow> obj \<Rightarrow> bool" where
  "has_key_in ks r \<longleftrightarrow> (case pk r of Some k \<Rightarrow> k \<in> set ks | None \<Rightarrow> False)"

definition delete :: "orm \<Rightarrow> addr \<Rightarrow> unit comp" where
  "delete m a = (\<lambda>s.
     case pk (mem s a) of
       None \<Rightarrow> (Inl (AssertionError ''object can't be deleted because its id attribute is set to None''), s)
     | Some k \<Rightarrow>
         (Inr (),
          s\<lparr>rows := filter (\<lambda>r. \<not> has_key_in (collect m (rows s) [k]) r) (rows s),
            links := filter (\<lambda>(c, f, x, y). x \<notin> set (collect m (rows s) [k])
                                           \<and> y \<notin> set (collect m (rows s) [k])) (links s),
            journal := journal s @ [Deleted k],
            mem := (mem s)(a := setattr (mem s a) ''id'' VNone)\<rparr>))"

text \<open>
  The records a reverse accessor of \<open>x\<close> lists: the rows of the declaring model whose
  field holds the key of \<open>x\<close>; none for an object without a key.
\<close>

definition referencing :: "world \<Rightarrow> related \<Rightarrow> obj \<Rightarrow> obj list" where
  "referencing s d x =
     (case pk x of
        None \<Rightarrow> []
      | Some k \<Rightarrow> filter (\<lambda>r. klass r = related_model d \<and> attrs r (field_name d) = Some (VInt k))
                    (rows s))"

text \<open>
  \<^verbatim>\<open>hasattr(x, name)\<close> for the accessor of a reverse foreign key: a name that is
  \<^verbatim>\<open>None\<close> is a type error, a hidden relation has no accessor.
\<close>

definition hasattr_manager :: "related \<Rightarrow> error + bool" where
  "hasattr_manager d =
     (case accessor_name d of
        None \<Rightarrow> Inl (TypeError ''hasattr(): attribute name must be string'')
      | Some n \<Rightarrow> Inr (\<not> hidden d))"

text \<open>
  The accessor of a one-to-one relation gives the one linked record and raises when
  there is none; \<^verbatim>\<open>hasattr\<close> of the interpreter the file is written for answers
  \<^verbatim>\<open>False\<close> on every exception, so also when the link is not unique.
\<close>

definition one_to_one_get :: "world \<Rightarrow> related \<Rightarrow> obj \<Rightarrow> obj option" where
  "one_to_one_get s d x = (case referencing s d x of [r] \<Rightarrow> Some r | _ \<Rightarrow> None)"

definition hasattr_one_to_one :: "related \<Rightarrow> addr \<Rightarrow> bool comp" where
  "hasattr_one_to_one d a = (\<lambda>s.
     case accessor_name d of
       None \<Rightarrow> (Inl (TypeError ''hasattr(): attribute name must be string''), s)
     | Some n \<Rightarrow> (Inr (\<not> hidden d \<and> one_to_one_get s d (mem s a) \<noteq> None), s))"

text \<open>
  Many-to-many collections. \<open>linked d ls a b\<close>: \<open>b\<close> is in the collection of \<open>a\<close>;
  a symmetrical field is read in both directions. \<open>reverse_members\<close> is the reverse
  accessor of \<open>x\<close> (the records that have \<open>x\<close> in their collection),
  \<open>forward_members\<close> the collection of \<open>x\<close> itself.
\<close>

definition linked :: "related \<Rightarrow> link list \<Rightarrow> oid \<Rightarrow> oid \<Rightarrow> bool" where
  "linked d ls a b \<longleftrightarrow>
     (related_model d, field_name d, a, b) \<in> set ls
     \<or> (symmetrical d \<and> (related_model d, field_name d, b, a) \<in> set ls)"

definition reverse_members :: "related \<Rightarrow> link list \<Rightarrow> oid \<Rightarrow> oid list" where
  "reverse_members d ls x =
     remdups (concat (map (\<lambda>(m, f, a, b).
        if m = related_model d \<and> f = field_name d
        then (if b = x then [a] else []) @ (if symmetrical d \<and> a = x then [b] else [])
        else []) ls))"

definition forward_members :: "related \<Rightarrow> link list \<Rightarrow> oid \<Rightarrow> oid list" where
  "forward_members d ls x =
     remdups (concat (map (\<lambda>(m, f, a, b).
        if m = related_model d \<and> f = field_name d
        then (if a = x then [b] else []) @ (if symmetrical d \<and> b = x then [a] else [])
        else []) ls))"

definition m2m_remove :: "related \<Rightarrow> oid \<Rightarrow> oid \<Rightarrow> unit comp" where
  "m2m_remove d a b = (\<lambda>s. (Inr (),
     s\<lparr>links := filter (\<lambda>l. l \<noteq> (related_model d, field_name d, a, b)
                          \<and> \<not> (symmetrical d \<and> l = (related_model d, field_name d, b, a))) (links s),
       journal := journal s @ [Unlinked (related_model d) (field_name d) a b]\<rparr>))"

definition m2m_add :: "related \<Rightarrow> oid \<Rightarrow> oid \<Rightarrow> unit comp" where
  "m2m_add d a b = (\<lambda>s. (Inr (),
     s\<lparr>links := (if linked d (links s) a b then links s
                 else links s @ [(related_model d, field_name d, a, b)]),
       journal := journal s @ [Linked (related_model d) (field_name d) a b]\<rparr>))"

section \<open>merge_model_objects\<close>

datatype alias_arg = Single addr | Listed "addr list"

text \<open>\<^verbatim>\<open>if not isinstance(alias_objects, list): alias_objects = [alias_objects]\<close>\<close>

fun as_list :: "alias_arg \<Rightarrow> addr list" where
  "as_list (Single a) = [a]"
| "as_list (Listed xs) = xs"

text \<open>The two checks of lines 25 to 32.\<close>

definition validate :: "orm \<Rightarrow> obj \<Rightarrow> obj list \<Rightarrow> error option" where
  "validate m primary_object alias_objects =
     (let primary_class = klass primary_object in
      if \<not> issubclass m primary_class Model
      then Some (TypeError ''Only django.db.models.Model subclasses can be merged'')
      else if list_ex (\<lambda>alias_object. \<not> isinstance m alias_object primary_class) alias_objects
      then Some (TypeError ''Only models of same class can be merged'')
      else None)"

text \<open>Lines 37 to 40. The list is built and not used afterwards.\<close>

fun is_generic :: "class_attr \<Rightarrow> bool" where
  "is_generic (GenericForeignKey ct fk) = True"
| "is_generic OtherAttr = False"

definition generic_fields :: "orm \<Rightarrow> class_attr list" where
  "generic_fields m =
     concat (map (\<lambda>model. map snd (filter (\<lambda>x. is_generic (snd x)) (class_dict m model)))
                 (get_models m))"

text \<open>
  Line 42. The Python value is a set; here it is the list of the names in the order of
  \<^verbatim>\<open>local_fields\<close>, without repetition.
\<close>

fun blank_names :: "obj \<Rightarrow> local_field list \<Rightarrow> error + string list" where
  "blank_names x [] = Inr []"
| "blank_names x (f # fs) =
     (case getattr x (attname f) of
        Inl e \<Rightarrow> Inl e
      | Inr v \<Rightarrow>
          (case blank_names x fs of
             Inl e \<Rightarrow> Inl e
           | Inr ns \<Rightarrow> Inr (if blank v then attname f # ns else ns)))"

definition blank_local_fields :: "orm \<Rightarrow> obj \<Rightarrow> error + string list" where
  "blank_local_fields m x =
     (case blank_names x (local_fields m (klass x)) of
        Inl e \<Rightarrow> Inl e
      | Inr ns \<Rightarrow> Inr (remdups ns))"

text \<open>
  \<^verbatim>\<open>setattr(obj, obj_varname, primary_object); obj.save()\<close>, for a record \<open>x\<close> that a
  query has given. The mapper refuses to save a reference to an object without a key.
\<close>

definition repoint :: "addr \<Rightarrow> related \<Rightarrow> obj \<Rightarrow> unit comp" where
  "repoint p d x = (\<lambda>s.
     case pk (mem s p) of
       None \<Rightarrow> (Inl (ValueError ''save() prohibited to prevent data loss due to unsaved related object''), s)
     | Some k \<Rightarrow> seq (save (setattr x (field_name d) (VInt k))) (\<lambda>_. ret ()) s)"

text \<open>
  Lines 87 to 92: the records of the reverse accessor, or none when the object has no
  such attribute, are re-pointed one by one.
\<close>

definition related_objects :: "related \<Rightarrow> addr \<Rightarrow> obj list comp" where
  "related_objects d a = (\<lambda>s.
     case hasattr_manager d of
       Inl e \<Rightarrow> (Inl e, s)
     | Inr b \<Rightarrow> (Inr (if b then referencing s d (mem s a) else []), s))"

definition migrate_foreign_key :: "addr \<Rightarrow> addr \<Rightarrow> related \<Rightarrow> unit comp" where
  "migrate_foreign_key p a d =
     seq (related_objects d a) (\<lambda>objs. for_each objs (repoint p d))"

text \<open>
  Lines 48 to 52, one iteration. The call of line 52 is made on a field object, which
  has no such method; lines 54 to 58 are not reached.
\<close>

definition migrate_local_field :: "addr \<Rightarrow> addr \<Rightarrow> local_field \<Rightarrow> unit comp" where
  "migrate_local_field p a f =
     (if is_auto f then ret ()
      else throw (AttributeError ''get_accessor_name''))"

text \<open>Lines 47 to 58.\<close>

definition migrate_local_fields :: "orm \<Rightarrow> bool \<Rightarrow> addr \<Rightarrow> addr \<Rightarrow> unit comp" where
  "migrate_local_fields m migrate_data p a =
     (if migrate_data
      then (\<lambda>s. for_each (local_fields m (klass (mem s a))) (migrate_local_field p a) s)
      else ret ())"

text \<open>
  Lines 61 to 73. The accessor of line 67 or 70 is refused for an object without a key;
  \<^verbatim>\<open>remove\<close> of an object without a key removes nothing, \<^verbatim>\<open>add\<close> of one is refused.
\<close>

definition relink :: "addr \<Rightarrow> addr \<Rightarrow> related \<Rightarrow> oid \<Rightarrow> unit comp" where
  "relink p a d x =
     seq (\<lambda>s. case pk (mem s a) of None \<Rightarrow> (Inr (), s) | Some k \<Rightarrow> m2m_remove d x k s) (\<lambda>_ s.
       case pk (mem s p) of
         None \<Rightarrow> (Inl (ValueError ''cannot add an object without a key''), s)
       | Some k \<Rightarrow> m2m_add d x k s)"

definition related_many_objects :: "related \<Rightarrow> addr \<Rightarrow> oid list comp" where
  "related_many_objects d a = (\<lambda>s.
     case accessor_name d of
       Some n \<Rightarrow>
         if hidden d then (Inl (AttributeError n), s)
         else (case pk (mem s a) of
                 None \<Rightarrow> (Inl (ValueError ''a many-to-many relationship needs a key''), s)
               | Some k \<Rightarrow> (Inr (reverse_members d (links s) k), s))
     | None \<Rightarrow>
         (case pk (mem s a) of
            None \<Rightarrow> (Inl (ValueError ''a many-to-many relationship needs a key''), s)
          | Some k \<Rightarrow> (Inr (forward_members d (links s) k), s)))"

definition migrate_many_to_many :: "addr \<Rightarrow> addr \<Rightarrow> related \<Rightarrow> unit comp" where
  "migrate_many_to_many p a d =
     seq (related_many_objects d a) (\<lambda>objs. for_each objs (relink p a d))"

text \<open>Lines 76 to 83, one iteration.\<close>

definition related_alias_object :: "addr \<Rightarrow> addr \<Rightarrow> related \<Rightarrow> obj option comp" where
  "related_alias_object p a d =
     seq (hasattr_one_to_one d a) (\<lambda>alias_has.
       if alias_has
       then seq (hasattr_one_to_one d p) (\<lambda>primary_has.
              if \<not> primary_has then (\<lambda>s. (Inr (one_to_one_get s d (mem s a)), s))
              else ret None)
       else ret None)"

definition migrate_one_to_one :: "addr \<Rightarrow> addr \<Rightarrow> related \<Rightarrow> unit comp" where
  "migrate_one_to_one p a d =
     seq (related_alias_object p a d) (\<lambda>linked_object.
       case linked_object of None \<Rightarrow> ret () | Some r \<Rightarrow> repoint p d r)"

text \<open>Lines 95 to 100; the result is \<^verbatim>\<open>filled_up\<close>.\<close>

fun back_fill :: "addr \<Rightarrow> addr \<Rightarrow> string list \<Rightarrow> string list comp" where
  "back_fill p a [] = ret []"
| "back_fill p a (name # ns) = (\<lambda>s.
     case getattr (mem s a) name of
       Inl e \<Rightarrow> (Inl e, s)
     | Inr v \<Rightarrow>
         if \<not> blank v
         then seq (back_fill p a ns) (\<lambda>filled_up. ret (name # filled_up))
                (s\<lparr>mem := (mem s)(p := setattr (mem s p) name v)\<rparr>)
         else back_fill p a ns s)"

text \<open>Lines 45 to 104, one alias; the result is the new \<^verbatim>\<open>blank_local_fields\<close>.\<close>

definition merge_alias ::
  "orm \<Rightarrow> bool \<Rightarrow> bool \<Rightarrow> addr \<Rightarrow> addr \<Rightarrow> string list \<Rightarrow> string list comp" where
  "merge_alias m migrate_data keep_old p a blank_fields =
     seq (migrate_local_fields m migrate_data p a) (\<lambda>_.
     seq (\<lambda>s. for_each (get_all_related_many_to_many_objects m (mem s a))
                (migrate_many_to_many p a) s) (\<lambda>_.
     seq (\<lambda>s. for_each (get_all_related_one_to_one_objects m (mem s a))
                (migrate_one_to_one p a) s) (\<lambda>_.
     seq (\<lambda>s. for_each (get_all_related_one_to_many_objects m (mem s a))
                (migrate_foreign_key p a) s) (\<lambda>_.
     seq (back_fill p a blank_fields) (\<lambda>filled_up.
     seq (if \<not> keep_old then delete m a else ret ()) (\<lambda>_.
     ret (filter (\<lambda>n. n \<notin> set filled_up) blank_fields)))))))"

fun merge_aliases ::
  "orm \<Rightarrow> bool \<Rightarrow> bool \<Rightarrow> addr \<Rightarrow> addr list \<Rightarrow> string list \<Rightarrow> string list comp" where
  "merge_aliases m migrate_data keep_old p [] blank_fields = ret blank_fields"
| "merge_aliases m migrate_data keep_old p (a # rest) blank_fields =
     seq (merge_alias m migrate_data keep_old p a blank_fields)
         (merge_aliases m migrate_data keep_old p rest)"

text \<open>The body of the function; \<open>p\<close> is the argument \<^verbatim>\<open>primary_object\<close>.\<close>

definition merge_body :: "orm \<Rightarrow> addr \<Rightarrow> alias_arg \<Rightarrow> bool \<Rightarrow> bool \<Rightarrow> obj comp" where
  "merge_body m p alias_arg migrate_data keep_old = (\<lambda>s.
     let alias_objects = as_list alias_arg in
     case validate m (mem s p) (map (mem s) alias_objects) of
       Some e \<Rightarrow> (Inl e, s)
     | None \<Rightarrow>
         let gf = generic_fields m in
         (case blank_local_fields m (mem s p) of
            Inl e \<Rightarrow> (Inl e, s)
          | Inr blank_fields \<Rightarrow>
              seq (merge_aliases m migrate_data keep_old p alias_objects blank_fields) (\<lambda>_.
              seq (save_object p) (\<lambda>_.
              (\<lambda>s'. (Inr (mem s' p), s')))) s))"

text \<open>
  \<^verbatim>\<open>@transaction.atomic\<close>: when the body raises, the database is as it was before the
  call; objects in memory are not restored, and the calls made stay in the journal.
\<close>

definition atomic :: "'a comp \<Rightarrow> 'a comp" where
  "atomic body = (\<lambda>s.
     case body s of
       (Inl e, s') \<Rightarrow> (Inl e, s'\<lparr>rows := rows s, links := links s, next_id := next_id s\<rparr>)
     | (Inr x, s') \<Rightarrow> (Inr x, s'))"

definition merge_model_objects :: "orm \<Rightarrow> addr \<Rightarrow> alias_arg \<Rightarrow> bool \<Rightarrow> bool \<Rightarrow> obj comp" where
  "merge_model_objects m p alias_arg migrate_data keep_old =
     atomic (merge_body m p alias_arg migrate_data keep_old)"

section \<open>Auxiliary notions\<close>

text \<open>
  A computation preserves a property of the world, whatever its outcome; and a
  computation that starts where \<open>P\<close> holds and returns, returns a result and a world
  that satisfy \<open>Q\<close>.
\<close>

definition preserves :: "(world \<Rightarrow> bool) \<Rightarrow> 'a comp \<Rightarrow> bool" where
  "preserves P c \<longleftrightarrow> (\<forall>s. P s \<longrightarrow> P (snd (c s)))"

definition returns :: "(world \<Rightarrow> bool) \<Rightarrow> 'a comp \<Rightarrow> ('a \<Rightarrow> world \<Rightarrow> bool) \<Rightarrow> bool" where
  "returns P c Q \<longleftrightarrow> (\<forall>s x s'. P s \<longrightarrow> c s = (Inr x, s') \<longrightarrow> Q x s')"

text \<open>Every exception a computation can raise satisfies \<open>E\<close>.\<close>

definition raises_only :: "(error \<Rightarrow> bool) \<Rightarrow> 'a comp \<Rightarrow> bool" where
  "raises_only E c \<longleftrightarrow> (\<forall>s e s'. c s = (Inl e, s') \<longrightarrow> E e)"

text \<open>The exceptions of lines 28 and 32.\<close>

definition validation_error :: "error \<Rightarrow> bool" where
  "validation_error e \<longleftrightarrow>
     e = TypeError ''Only django.db.models.Model subclasses can be merged''
     \<or> e = TypeError ''Only models of same class can be merged''"

text \<open>
  The value back-fill is to give a blank field: that of the first alias, in the given
  order, whose value for the field is neither \<^verbatim>\<open>None\<close> nor the empty string.
\<close>

fun first_non_blank :: "string \<Rightarrow> obj list \<Rightarrow> val option" where
  "first_non_blank n [] = None"
| "first_non_blank n (a # rest) =
     (case attrs a n of
        Some v \<Rightarrow> if blank v then first_non_blank n rest else Some v
      | None \<Rightarrow> first_non_blank n rest)"

text \<open>The row of a key, and the calls journalled between two worlds.\<close>

definition row_of :: "obj list \<Rightarrow> oid \<Rightarrow> obj option" where
  "row_of rs k = find (\<lambda>r. pk r = Some k) rs"

definition since :: "world \<Rightarrow> world \<Rightarrow> event list" where
  "since s s' = drop (length (journal s)) (journal s')"

text \<open>The value of a field in the row of a key.\<close>

definition field_of :: "world \<Rightarrow> oid \<Rightarrow> string \<Rightarrow> val option" where
  "field_of t k f = (case row_of (rows t) k of None \<Rightarrow> None | Some r \<Rightarrow> attrs r f)"

text \<open>The keys deleted by a list of calls, in order.\<close>

fun deleted_keys :: "event list \<Rightarrow> oid list" where
  "deleted_keys [] = []"
| "deleted_keys (Deleted x # evs) = x # deleted_keys evs"
| "deleted_keys (e # evs) = deleted_keys evs"

text \<open>The four migration steps of one alias, lines 47 to 92.\<close>

definition migrate_relations :: "orm \<Rightarrow> bool \<Rightarrow> addr \<Rightarrow> addr \<Rightarrow> unit comp" where
  "migrate_relations m migrate_data p a =
     seq (migrate_local_fields m migrate_data p a) (\<lambda>_.
     seq (\<lambda>s. for_each (get_all_related_many_to_many_objects m (mem s a))
                (migrate_many_to_many p a) s) (\<lambda>_.
     seq (\<lambda>s. for_each (get_all_related_one_to_one_objects m (mem s a))
                (migrate_one_to_one p a) s) (\<lambda>_.
     (\<lambda>s. for_each (get_all_related_one_to_many_objects m (mem s a))
                (migrate_foreign_key p a) s))))"


text \<open>The keys of the rows of a table.\<close>

definition keys :: "obj list \<Rightarrow> oid list" where
  "keys rs = List.map_filter pk rs"

section \<open>Example data\<close>

text \<open>
  A schema with users, a proxy class of users, posts with an author, profiles with a
  one-to-one link to a user, groups with members, a symmetrical friendship relation and
  comments with a generic foreign key; and teams, which have no field but their key,
  with players and a one-to-one charter.
\<close>

definition user_post :: related where
  "user_post = \<lparr>accessor_name = Some ''post_set'', field_name = ''author'',
     related_model = ''Post'', hidden = False\<rparr>"

definition user_profile :: related where
  "user_profile = \<lparr>accessor_name = Some ''profile'', field_name = ''user'',
     related_model = ''Profile'', hidden = False\<rparr>"

definition user_groups :: related where
  "user_groups = \<lparr>accessor_name = Some ''group_set'', field_name = ''members'',
     related_model = ''Group'', hidden = False\<rparr>"

definition user_friends :: related where
  "user_friends = \<lparr>accessor_name = None, field_name = ''friends'',
     related_model = ''User'', hidden = False\<rparr>"

definition team_player :: related where
  "team_player = \<lparr>accessor_name = Some ''player_set'', field_name = ''team'',
     related_model = ''Player'', hidden = False\<rparr>"

definition team_charter :: related where
  "team_charter = \<lparr>accessor_name = Some ''charter'', field_name = ''team'',
     related_model = ''Charter'', hidden = False\<rparr>"

definition user_fields :: "local_field list" where
  "user_fields =
     [\<lparr>attname = ''id'', is_auto = True\<rparr>,
      \<lparr>attname = ''email'', is_auto = False\<rparr>,
      \<lparr>attname = ''phone'', is_auto = False\<rparr>]"

definition shop :: orm where
  "shop = \<lparr>
     mro = (\<lambda>c. if c = ''Admin'' then [''Admin'', ''User'', ''Model'', ''object'']
                else if c = ''str'' then [''str'', ''object'']
                else [c, ''Model'', ''object'']),
     local_fields = (\<lambda>c. if c = ''User'' then user_fields
                         else if c = ''Admin'' then []
                         else [\<lparr>attname = ''id'', is_auto = True\<rparr>]),
     foreign_keys = (\<lambda>c. if c = ''Post'' then [''author'']
                         else if c = ''Profile'' then [''user'']
                         else if c = ''Player'' \<or> c = ''Charter'' then [''team'']
                         else []),
     get_models = [''User'', ''Admin'', ''Post'', ''Profile'', ''Group'', ''Comment'',
                   ''Team'', ''Player'', ''Charter''],
     class_dict = (\<lambda>c. if c = ''Comment''
                       then [(''target'', GenericForeignKey ''content_type'' ''object_id'')]
                       else []),
     get_all_related_many_to_many_objects =
       (\<lambda>x. if klass x = ''User'' \<or> klass x = ''Admin'' then [user_groups, user_friends] else []),
     get_all_related_one_to_one_objects =
       (\<lambda>x. if klass x = ''User'' \<or> klass x = ''Admin'' then [user_profile]
            else if klass x = ''Team'' then [team_charter] else []),
     get_all_related_one_to_many_objects =
       (\<lambda>x. if klass x = ''User'' \<or> klass x = ''Admin'' then [user_post]
            else if klass x = ''Team'' then [team_player] else [])\<rparr>"

definition alice :: obj where
  "alice = \<lparr>klass = ''User'',
     attrs = [''id'' \<mapsto> VInt 1, ''email'' \<mapsto> VStr [], ''phone'' \<mapsto> VStr ''555'']\<rparr>"

definition bob :: obj where
  "bob = \<lparr>klass = ''User'',
     attrs = [''id'' \<mapsto> VInt 2, ''email'' \<mapsto> VStr ''bob@example.com'', ''phone'' \<mapsto> VStr ''777'']\<rparr>"

definition carol :: obj where
  "carol = \<lparr>klass = ''Admin'',
     attrs = [''id'' \<mapsto> VInt 3, ''email'' \<mapsto> VStr ''carol@example.com'', ''phone'' \<mapsto> VNone]\<rparr>"

definition dave :: obj where
  "dave = \<lparr>klass = ''Admin'',
     attrs = [''id'' \<mapsto> VInt 4, ''email'' \<mapsto> VStr ''dave@example.com'', ''phone'' \<mapsto> VStr ''999'']\<rparr>"

definition stranger :: obj where
  "stranger = \<lparr>klass = ''Post'', attrs = [''id'' \<mapsto> VInt 10, ''author'' \<mapsto> VInt 2]\<rparr>"

definition reds :: obj where
  "reds = \<lparr>klass = ''Team'', attrs = [''id'' \<mapsto> VInt 50]\<rparr>"

definition blues :: obj where
  "blues = \<lparr>klass = ''Team'', attrs = [''id'' \<mapsto> VInt 51]\<rparr>"

text \<open>
  The objects of the caller: alice at address 0, bob at 1, carol at 2, dave at 3, a post
  at 4, and the two teams at 5 and 6.
\<close>

definition heap :: "addr \<Rightarrow> obj" where
  "heap = (\<lambda>a. \<lparr>klass = ''NoneType'', attrs = Map.empty\<rparr>)
     (0 := alice, 1 := bob, 2 := carol, 3 := dave, 4 := stranger, 5 := reds, 6 := blues)"

definition db :: world where
  "db = \<lparr>rows = [alice, bob, carol, dave, stranger,
          \<lparr>klass = ''Post'', attrs = [''id'' \<mapsto> VInt 11, ''author'' \<mapsto> VInt 3]\<rparr>,
          \<lparr>klass = ''Profile'', attrs = [''id'' \<mapsto> VInt 20, ''user'' \<mapsto> VInt 2]\<rparr>,
          \<lparr>klass = ''Comment'', attrs = [''id'' \<mapsto> VInt 30, ''content_type'' \<mapsto> VStr ''User'',
                                        ''object_id'' \<mapsto> VInt 2]\<rparr>,
          \<lparr>klass = ''Comment'', attrs = [''id'' \<mapsto> VInt 31, ''content_type'' \<mapsto> VStr ''Team'',
                                        ''object_id'' \<mapsto> VInt 51]\<rparr>,
          reds, blues,
          \<lparr>klass = ''Charter'', attrs = [''id'' \<mapsto> VInt 60, ''team'' \<mapsto> VInt 50]\<rparr>,
          \<lparr>klass = ''Charter'', attrs = [''id'' \<mapsto> VInt 61, ''team'' \<mapsto> VInt 51]\<rparr>,
          \<lparr>klass = ''Player'', attrs = [''id'' \<mapsto> VInt 70, ''team'' \<mapsto> VInt 51]\<rparr>],
     links = [(''Group'', ''members'', 40, 2), (''User'', ''friends'', 2, 5)],
     next_id = 100,
     journal = [],
     mem = heap\<rparr>"

text \<open>The same database, where alice has a profile of her own.\<close>

definition db2 :: world where
  "db2 = db\<lparr>rows := rows db @
            [\<lparr>klass = ''Profile'', attrs = [''id'' \<mapsto> VInt 21, ''user'' \<mapsto> VInt 1]\<rparr>]\<rparr>"

section \<open>Basic facts\<close>


lemma seq_Inr: "c s = (Inr x, s') \<Longrightarrow> seq c f s = f x s'"
  by (simp add: seq_def)

lemma seq_Inl: "c s = (Inl e, s') \<Longrightarrow> seq c f s = (Inl e, s')"
  by (simp add: seq_def)

lemma seq_ret: "seq (ret x) f = f x"
  by (simp add: seq_def ret_def)

lemma seq_InrE:
  assumes "seq c f s = (Inr y, s')"
  obtains x t where "c s = (Inr x, t)" and "f x t = (Inr y, s')"
  using assms by (auto simp: seq_def split: prod.splits sum.splits)

lemma seq_InlE:
  assumes "seq c f s = (Inl e, s')"
  obtains "c s = (Inl e, s')" | x t where "c s = (Inr x, t)" and "f x t = (Inl e, s')"
  using assms by (auto simp: seq_def split: prod.splits sum.splits)

lemma atomic_same: "body s = (Inl e, s) \<Longrightarrow> atomic body s = (Inl e, s)"
  by (simp add: atomic_def)

lemma atomic_Inr: "body s = (Inr x, s') \<Longrightarrow> atomic body s = (Inr x, s')"
  by (simp add: atomic_def)

lemma atomic_InrD: "atomic body s = (Inr x, s') \<Longrightarrow> body s = (Inr x, s')"
  by (auto simp: atomic_def split: prod.splits sum.splits)

lemma atomic_fst: "fst (atomic body s) = fst (body s)"
  by (auto simp: atomic_def split: prod.splits sum.splits)

lemma atomic_mem: "mem (snd (atomic body s)) = mem (snd (body s))"
  by (auto simp: atomic_def split: prod.splits sum.splits)

lemma atomic_journal: "journal (snd (atomic body s)) = journal (snd (body s))"
  by (auto simp: atomic_def split: prod.splits sum.splits)

lemma validate_TypeError: "validate m x xs = Some e \<Longrightarrow> \<exists>msg. e = TypeError msg"
  by (auto simp: validate_def Let_def split: if_splits)

lemma validate_error: "validate m x xs = Some e \<Longrightarrow> validation_error e"
  by (auto simp: validate_def validation_error_def Let_def split: if_splits)

lemma validate_None_iff:
  "validate m x xs = None \<longleftrightarrow>
     issubclass m (klass x) Model \<and> (\<forall>a\<in>set xs. isinstance m a (klass x))"
  by (auto simp: validate_def Let_def list_ex_iff)

lemma merge_body_invalid:
  "validate m (mem s p) (map (mem s) (as_list al)) = Some e
     \<Longrightarrow> merge_body m p al md ko s = (Inl e, s)"
  by (simp add: merge_body_def)

lemma blank_names_ok:
  "\<forall>f\<in>set fs. attrs x (attname f) \<noteq> None \<Longrightarrow> \<exists>ns. blank_names x fs = Inr ns"
  by (induction fs) (auto simp: getattr_def split: option.splits)

lemma pk_setattr: "n \<noteq> ''id'' \<Longrightarrow> pk (setattr x n v) = pk x"
  by (simp add: pk_def setattr_def)

lemma pk_setattr_id: "pk (setattr x ''id'' (VInt k)) = Some k"
  by (simp add: pk_def setattr_def)

lemma pk_setattr_none: "pk (setattr x ''id'' VNone) = None"
  by (simp add: pk_def setattr_def)

lemma klass_setattr: "klass (setattr x n v) = klass x"
  by (simp add: setattr_def)

lemma attrs_setattr: "attrs (setattr x n v) n' = (if n' = n then Some v else attrs x n')"
  by (simp add: setattr_def)

lemma save_row_others:
  "filter (\<lambda>r. pk r \<noteq> Some k) (save_row k x rs) = filter (\<lambda>r. pk r \<noteq> Some k) rs"
  if "pk x = Some k"
proof -
  have "filter (\<lambda>r. pk r \<noteq> Some k) (map (\<lambda>r. if pk r = Some k then x else r) rs)
          = filter (\<lambda>r. pk r \<noteq> Some k) rs"
    using that by (induction rs) auto
  with that show ?thesis by (simp add: save_row_def)
qed

subsection \<open>Properties kept whatever the outcome\<close>

lemma preservesD: "preserves P c \<Longrightarrow> P s \<Longrightarrow> P (snd (c s))"
  by (simp add: preserves_def)

lemma preserves_ret: "preserves P (ret x)"
  by (simp add: preserves_def ret_def)

lemma preserves_throw: "preserves P (throw e)"
  by (simp add: preserves_def throw_def)

lemma preserves_seq:
  assumes "preserves P c" and "\<And>x. preserves P (f x)"
  shows "preserves P (seq c f)"
proof -
  have "P (snd (seq c f s))" if "P s" for s
  proof (cases "c s")
    case (Pair y t)
    from assms(1) that Pair have t: "P t" by (auto simp: preserves_def)
    show ?thesis
    proof (cases y)
      case (Inl e)
      with Pair t show ?thesis by (simp add: seq_def)
    next
      case (Inr x)
      with Pair have "seq c f s = f x t" by (simp add: seq_def)
      with assms(2) [of x] t show ?thesis by (simp add: preserves_def)
    qed
  qed
  then show ?thesis by (simp add: preserves_def)
qed

lemma preserves_for_each:
  assumes "\<And>x. x \<in> set xs \<Longrightarrow> preserves P (body x)"
  shows "preserves P (for_each xs body)"
  using assms
proof (induction xs)
  case Nil
  show ?case by (simp add: preserves_ret)
next
  case (Cons x xs)
  show ?case
    unfolding for_each.simps
  proof (rule preserves_seq)
    show "preserves P (body x)" using Cons.prems by simp
    show "preserves P (for_each xs body)" for u using Cons by simp
  qed
qed

lemma preserves_state:
  assumes "\<And>t. preserves P (f t)"
  shows "preserves P (\<lambda>s. f s s)"
  using assms by (simp add: preserves_def)

lemma preserves_if:
  assumes "b \<Longrightarrow> preserves P c" and "\<not> b \<Longrightarrow> preserves P d"
  shows "preserves P (if b then c else d)"
  using assms by simp

lemma preserves_loop:
  assumes "\<And>x. preserves P (body x)"
  shows "preserves P (\<lambda>s. for_each (g s) body s)"
proof -
  have "preserves P (for_each (g t) body)" for t
    by (rule preserves_for_each) (rule assms)
  then show ?thesis by (simp add: preserves_def)
qed

text \<open>A computation that leaves the world as it is.\<close>

lemma preserves_query:
  assumes "\<And>s. snd (c s) = s"
  shows "preserves P c"
  using assms by (simp add: preserves_def)

subsection \<open>What holds when a computation returns\<close>

lemma returnsD: "returns P c Q \<Longrightarrow> P s \<Longrightarrow> c s = (Inr x, s') \<Longrightarrow> Q x s'"
  by (auto simp: returns_def)

lemma returns_ret:
  assumes "\<And>s. P s \<Longrightarrow> Q x s"
  shows "returns P (ret x) Q"
  using assms by (simp add: returns_def ret_def)

lemma returns_throw: "returns P (throw e) Q"
  by (simp add: returns_def throw_def)

lemma returns_seq:
  assumes "returns P c R" and "\<And>x. returns (R x) (f x) Q"
  shows "returns P (seq c f) Q"
proof -
  have "Q y s'" if "P s" and "seq c f s = (Inr y, s')" for s y s'
  proof -
    from that(2) obtain x t where c: "c s = (Inr x, t)" and f: "f x t = (Inr y, s')"
      by (rule seq_InrE)
    from assms(1) that(1) c have "R x t" by (rule returnsD)
    with assms(2) [of x] f show ?thesis by (blast dest: returnsD)
  qed
  then show ?thesis by (simp add: returns_def)
qed

lemma returns_weaken:
  assumes "returns P c Q" and "\<And>s. P' s \<Longrightarrow> P s" and "\<And>x s. Q x s \<Longrightarrow> Q' x s"
  shows "returns P' c Q'"
  unfolding returns_def
proof (intro allI impI)
  fix s x s' assume "P' s" and c: "c s = (Inr x, s')"
  from \<open>P' s\<close> have "P s" by (rule assms(2))
  with assms(1) have "Q x s'" using c by (rule returnsD)
  then show "Q' x s'" by (rule assms(3))
qed

lemma returns_for_each:
  assumes "\<And>x. x \<in> set xs \<Longrightarrow> returns I (body x) (\<lambda>_. I)"
  shows "returns I (for_each xs body) (\<lambda>_. I)"
  using assms
proof (induction xs)
  case Nil
  show ?case by (simp add: returns_ret)
next
  case (Cons x xs)
  show ?case
    unfolding for_each.simps
  proof (rule returns_seq)
    show "returns I (body x) (\<lambda>_. I)" using Cons.prems by simp
    show "returns I (for_each xs body) (\<lambda>_. I)" for u using Cons by simp
  qed
qed

text \<open>
  A loop with an invariant that depends on the elements already visited.
\<close>

lemma returns_for_each_steps:
  assumes "\<And>pre x post. xs = pre @ x # post \<Longrightarrow> returns (I pre) (body x) (\<lambda>_. I (pre @ [x]))"
  shows "returns (I []) (for_each xs body) (\<lambda>_. I xs)"
proof -
  have "returns (I pre) (for_each ys body) (\<lambda>_. I (pre @ ys))" if "xs = pre @ ys" for pre ys
    using that
  proof (induction ys arbitrary: pre)
    case Nil
    show ?case by (simp add: returns_ret)
  next
    case (Cons y ys)
    show ?case
      unfolding for_each.simps
    proof (rule returns_seq)
      show "returns (I pre) (body y) (\<lambda>_. I (pre @ [y]))"
        using assms Cons.prems by blast
      show "returns (I (pre @ [y])) (for_each ys body) (\<lambda>_. I (pre @ y # ys))" for u
        using Cons.IH [of "pre @ [y]"] Cons.prems by simp
    qed
  qed
  from this [of "[]" xs] show ?thesis by simp
qed

lemma returns_state:
  assumes "\<And>t. returns (\<lambda>s. P s \<and> s = t) (f t) Q"
  shows "returns P (\<lambda>s. f s s) Q"
  using assms by (auto simp: returns_def)

lemma returns_loop:
  assumes "\<And>x. returns I (body x) (\<lambda>_. I)"
  shows "returns I (\<lambda>s. for_each (g s) body s) (\<lambda>_. I)"
proof -
  have "returns I (for_each (g t) body) (\<lambda>_. I)" for t
    by (rule returns_for_each) (rule assms)
  then show ?thesis by (simp add: returns_def)
qed

lemma returns_preserved:
  assumes "preserves P c"
  shows "returns P c (\<lambda>_. P)"
proof -
  have "P s'" if "P s" and "c s = (Inr x, s')" for s x s'
    using preservesD [OF assms that(1)] that(2) by simp
  then show ?thesis unfolding returns_def by blast
qed

lemma returns_conj:
  assumes "returns P c Q" and "returns P c Q'"
  shows "returns P c (\<lambda>x s. Q x s \<and> Q' x s)"
  using assms by (auto simp: returns_def)

subsection \<open>Which exceptions can be raised\<close>

lemma raises_onlyD: "raises_only E c \<Longrightarrow> c s = (Inl e, s') \<Longrightarrow> E e"
  by (auto simp: raises_only_def)

lemma raises_only_ret: "raises_only E (ret x)"
  by (simp add: raises_only_def ret_def)

lemma raises_only_throw: "E e \<Longrightarrow> raises_only E (throw e)"
  by (simp add: raises_only_def throw_def)

lemma raises_only_seq:
  assumes "raises_only E c" and "\<And>x. raises_only E (f x)"
  shows "raises_only E (seq c f)"
proof -
  have "E e" if "seq c f s = (Inl e, s')" for s e s'
    using that
  proof (rule seq_InlE)
    assume "c s = (Inl e, s')"
    with assms(1) show ?thesis by (rule raises_onlyD)
  next
    fix x t assume "f x t = (Inl e, s')"
    with assms(2) [of x] show ?thesis by (rule raises_onlyD)
  qed
  then show ?thesis unfolding raises_only_def by blast
qed

lemma raises_only_for_each:
  assumes "\<And>x. x \<in> set xs \<Longrightarrow> raises_only E (body x)"
  shows "raises_only E (for_each xs body)"
  using assms
proof (induction xs)
  case Nil
  show ?case by (simp add: raises_only_ret)
next
  case (Cons x xs)
  show ?case
    unfolding for_each.simps
  proof (rule raises_only_seq)
    show "raises_only E (body x)" using Cons.prems by simp
    show "raises_only E (for_each xs body)" for u using Cons by simp
  qed
qed

lemma raises_only_state:
  assumes "\<And>t. raises_only E (f t)"
  shows "raises_only E (\<lambda>s. f s s)"
  using assms by (simp add: raises_only_def)

text \<open>A loop over a list that is read from the world when the loop starts.\<close>

lemma raises_only_loop:
  assumes "\<And>x. raises_only E (body x)"
  shows "raises_only E (\<lambda>s. for_each (g s) body s)"
proof -
  have "raises_only E (for_each (g t) body)" for t
    by (rule raises_only_for_each) (rule assms)
  then show ?thesis by (simp add: raises_only_def)
qed

lemma no_raise:
  assumes "\<And>s. \<not> isl (fst (c s))"
  shows "raises_only E c"
proof -
  have False if "c s = (Inl e, s')" for s e s'
    using assms [of s] that by simp
  then show ?thesis unfolding raises_only_def by blast
qed

subsection \<open>Sequences whose second part depends on the result of the first\<close>

lemma preserves_seq_known:
  assumes "preserves P c"
      and "\<And>x s s'. P s \<Longrightarrow> c s = (Inr x, s') \<Longrightarrow> preserves P (f x)"
  shows "preserves P (seq c f)"
proof -
  have "P (snd (seq c f s))" if "P s" for s
  proof (cases "c s")
    case (Pair y t)
    from assms(1) that Pair have t: "P t" by (auto simp: preserves_def)
    show ?thesis
    proof (cases y)
      case (Inl e)
      with Pair t show ?thesis by (simp add: seq_def)
    next
      case (Inr x)
      with Pair have "seq c f s = f x t" by (simp add: seq_def)
      moreover from assms(2) [OF that] Pair Inr have "preserves P (f x)" by simp
      ultimately show ?thesis using t by (simp add: preserves_def)
    qed
  qed
  then show ?thesis by (simp add: preserves_def)
qed

subsection \<open>The exceptions of the steps of a merge\<close>

lemma not_validation_error [simp]:
  "\<not> validation_error (AttributeError n)"
  "\<not> validation_error (ValueError n)"
  "\<not> validation_error (AssertionError n)"
  "\<not> validation_error (TypeError ''hasattr(): attribute name must be string'')"
  by (simp_all add: validation_error_def)

lemma save_returns: "\<exists>y s'. save x s = (Inr y, s')"
  by (simp add: save_def split: option.splits)

lemma save_object_returns: "\<exists>s'. save_object a s = (Inr (), s')"
  using save_returns [of "mem s a" s] by (auto simp: save_object_def seq_def)

lemma save_object_raises: "raises_only E (save_object a)"
proof (rule no_raise)
  show "\<not> isl (fst (save_object a s))" for s
    using save_object_returns [of a s] by auto
qed

lemma delete_raises: "raises_only (\<lambda>e. \<not> validation_error e) (delete m a)"
  by (auto simp: raises_only_def delete_def split: option.splits)

lemma repoint_raises: "raises_only (\<lambda>e. \<not> validation_error e) (repoint p d x)"
proof -
  have "\<not> validation_error e" if "repoint p d x s = (Inl e, s')" for s e s'
  proof (cases "pk (mem s p)")
    case None
    with that show ?thesis by (auto simp: repoint_def)
  next
    case (Some k)
    obtain y t where "save (setattr x (field_name d) (VInt k)) s = (Inr y, t)"
      using save_returns by blast
    with Some that show ?thesis by (simp add: repoint_def seq_def ret_def)
  qed
  then show ?thesis unfolding raises_only_def by blast
qed

lemma related_objects_raises: "raises_only (\<lambda>e. \<not> validation_error e) (related_objects d a)"
  by (auto simp: raises_only_def related_objects_def hasattr_manager_def split: option.splits)

lemma migrate_foreign_key_raises:
  "raises_only (\<lambda>e. \<not> validation_error e) (migrate_foreign_key p a d)"
  unfolding migrate_foreign_key_def
  by (intro raises_only_seq raises_only_for_each related_objects_raises repoint_raises)

lemma migrate_local_fields_raises:
  "raises_only (\<lambda>e. \<not> validation_error e) (migrate_local_fields m md p a)"
proof (cases md)
  case True
  have "raises_only (\<lambda>e. \<not> validation_error e) (migrate_local_field p a f)" for f
    by (simp add: migrate_local_field_def raises_only_ret raises_only_throw)
  then have "raises_only (\<lambda>e. \<not> validation_error e)
               (\<lambda>s. for_each (local_fields m (klass (mem s a))) (migrate_local_field p a) s)"
    by (rule raises_only_loop)
  with True show ?thesis by (simp add: migrate_local_fields_def)
next
  case False
  then show ?thesis by (simp add: migrate_local_fields_def raises_only_ret)
qed

lemma relink_raises: "raises_only (\<lambda>e. \<not> validation_error e) (relink p a d x)"
  by (auto simp: raises_only_def relink_def seq_def m2m_remove_def m2m_add_def
           split: option.splits)

lemma related_many_objects_raises:
  "raises_only (\<lambda>e. \<not> validation_error e) (related_many_objects d a)"
  by (auto simp: raises_only_def related_many_objects_def split: option.splits if_splits)

lemma migrate_many_to_many_raises:
  "raises_only (\<lambda>e. \<not> validation_error e) (migrate_many_to_many p a d)"
  unfolding migrate_many_to_many_def
  by (intro raises_only_seq raises_only_for_each related_many_objects_raises relink_raises)

lemma hasattr_one_to_one_raises:
  "raises_only (\<lambda>e. \<not> validation_error e) (hasattr_one_to_one d a)"
  by (auto simp: raises_only_def hasattr_one_to_one_def split: option.splits)

lemma related_alias_object_raises:
  "raises_only (\<lambda>e. \<not> validation_error e) (related_alias_object p a d)"
proof -
  have q: "raises_only (\<lambda>e. \<not> validation_error e) (\<lambda>s. (Inr (one_to_one_get s d (mem s a)), s))"
    by (simp add: raises_only_def)
  show ?thesis
    unfolding related_alias_object_def
    by (intro raises_only_seq hasattr_one_to_one_raises)
       (simp_all add: q raises_only_ret raises_only_seq hasattr_one_to_one_raises)
qed

lemma migrate_one_to_one_raises:
  "raises_only (\<lambda>e. \<not> validation_error e) (migrate_one_to_one p a d)"
  unfolding migrate_one_to_one_def
proof (rule raises_only_seq [OF related_alias_object_raises])
  show "raises_only (\<lambda>e. \<not> validation_error e)
          (case x of None \<Rightarrow> ret () | Some r \<Rightarrow> repoint p d r)" for x
    by (cases x) (simp_all add: raises_only_ret repoint_raises)
qed

lemma back_fill_raises: "raises_only (\<lambda>e. \<not> validation_error e) (back_fill p a ns)"
proof (induction ns)
  case Nil
  show ?case by (simp add: raises_only_ret)
next
  case (Cons n ns)
  have "\<not> validation_error e" if "back_fill p a (n # ns) s = (Inl e, s')" for s e s'
  proof (cases "getattr (mem s a) n")
    case (Inl e')
    with that have "e = e'" by simp
    with Inl show ?thesis by (auto simp: getattr_def split: option.splits)
  next
    case (Inr v)
    show ?thesis
    proof (cases "blank v")
      case True
      with Inr that have "back_fill p a ns s = (Inl e, s')" by simp
      with Cons show ?thesis by (rule raises_onlyD)
    next
      case False
      with Inr that
      have "seq (back_fill p a ns) (\<lambda>filled_up. ret (n # filled_up))
              (s\<lparr>mem := (mem s)(p := setattr (mem s p) n v)\<rparr>) = (Inl e, s')"
        by simp
      moreover have "raises_only (\<lambda>e. \<not> validation_error e)
                       (seq (back_fill p a ns) (\<lambda>filled_up. ret (n # filled_up)))"
        by (intro raises_only_seq Cons raises_only_ret)
      ultimately show ?thesis by (rule raises_onlyD [rotated])
    qed
  qed
  then show ?case unfolding raises_only_def by blast
qed

lemma merge_alias_raises:
  "raises_only (\<lambda>e. \<not> validation_error e) (merge_alias m md ko p a bl)"
  unfolding merge_alias_def
  by (intro raises_only_seq raises_only_loop migrate_local_fields_raises
        migrate_many_to_many_raises migrate_one_to_one_raises migrate_foreign_key_raises
        back_fill_raises)
     (simp_all add: delete_raises raises_only_ret)

lemma merge_aliases_raises:
  "raises_only (\<lambda>e. \<not> validation_error e) (merge_aliases m md ko p xs bl)"
proof (induction xs arbitrary: bl)
  case Nil
  show ?case by (simp add: raises_only_ret)
next
  case (Cons a xs)
  show ?case
    unfolding merge_aliases.simps
    by (intro raises_only_seq merge_alias_raises Cons)
qed

lemma blank_names_raises: "blank_names x fs = Inl e \<Longrightarrow> \<not> validation_error e"
  by (induction fs arbitrary: e)
     (auto simp: getattr_def split: option.splits sum.splits)

lemma blank_local_fields_raises: "blank_local_fields m x = Inl e \<Longrightarrow> \<not> validation_error e"
  by (auto simp: blank_local_fields_def dest: blank_names_raises split: sum.splits)

lemma merge_body_raises:
  assumes "merge_body m p al md ko s = (Inl e, s')"
      and "validate m (mem s p) (map (mem s) (as_list al)) = None"
  shows "\<not> validation_error e"
proof (cases "blank_local_fields m (mem s p)")
  case (Inl e')
  with assms have "e = e'" by (simp add: merge_body_def)
  with Inl show ?thesis by (simp add: blank_local_fields_raises)
next
  case (Inr bl)
  have "raises_only (\<lambda>e. \<not> validation_error e)
          (seq (merge_aliases m md ko p (as_list al) bl) (\<lambda>_.
           seq (save_object p) (\<lambda>_. (\<lambda>s'. (Inr (mem s' p), s')))))"
    by (intro raises_only_seq merge_aliases_raises save_object_raises)
       (simp add: raises_only_def)
  moreover from assms Inr
  have "seq (merge_aliases m md ko p (as_list al) bl) (\<lambda>_.
          seq (save_object p) (\<lambda>_. (\<lambda>s'. (Inr (mem s' p), s')))) s = (Inl e, s')"
    by (simp add: merge_body_def)
  ultimately show ?thesis by (rule raises_onlyD)
qed

subsection \<open>The objects in memory\<close>

text \<open>
  The steps that migrate relations work on the database: whatever holds of the objects
  in memory holds after them.
\<close>

lemma save_mem: "mem (snd (save x s)) = mem s"
  by (simp add: save_def split: option.splits)

lemma save_Some:
  "pk x = Some k \<Longrightarrow>
     save x s = (Inr x, s\<lparr>rows := save_row k x (rows s), journal := journal s @ [Saved k]\<rparr>)"
  by (simp add: save_def)

lemma repoint_Some:
  assumes "pk (mem s p) = Some k" and "pk (setattr x (field_name d) (VInt k)) = Some j"
  shows "repoint p d x s =
           (Inr (), s\<lparr>rows := save_row j (setattr x (field_name d) (VInt k)) (rows s),
                       journal := journal s @ [Saved j]\<rparr>)"
  using assms by (simp add: repoint_def seq_def ret_def save_def)

lemma repoint_mem: "preserves (\<lambda>t. Q (mem t)) (repoint p d x)"
proof -
  have "mem (snd (repoint p d x s)) = mem s" for s
    by (cases "pk (mem s p)")
       (auto simp: repoint_def seq_def ret_def save_def split: option.splits)
  then show ?thesis by (simp add: preserves_def)
qed

lemma related_objects_same: "snd (related_objects d a s) = s"
  by (simp add: related_objects_def split: sum.splits)

lemma migrate_foreign_key_mem: "preserves (\<lambda>t. Q (mem t)) (migrate_foreign_key p a d)"
  unfolding migrate_foreign_key_def
  by (intro preserves_seq preserves_for_each repoint_mem preserves_query related_objects_same)

lemma migrate_local_fields_same: "snd (migrate_local_fields m md p a s) = s"
proof -
  have "snd (for_each fs (migrate_local_field p a) s) = s" for fs
    by (induction fs) (auto simp: ret_def seq_def throw_def migrate_local_field_def)
  then show ?thesis by (simp add: migrate_local_fields_def ret_def)
qed

lemma relink_mem: "preserves (\<lambda>t. Q (mem t)) (relink p a d x)"
proof -
  have "mem (snd (relink p a d x s)) = mem s" for s
    by (auto simp: relink_def seq_def m2m_remove_def m2m_add_def split: option.splits)
  then show ?thesis by (simp add: preserves_def)
qed

lemma related_many_objects_same: "snd (related_many_objects d a s) = s"
  by (simp add: related_many_objects_def split: option.splits)

lemma migrate_many_to_many_mem: "preserves (\<lambda>t. Q (mem t)) (migrate_many_to_many p a d)"
  unfolding migrate_many_to_many_def
  by (intro preserves_seq preserves_for_each relink_mem preserves_query
        related_many_objects_same)

lemma related_alias_object_same: "snd (related_alias_object p a d s) = s"
  by (auto simp: related_alias_object_def hasattr_one_to_one_def seq_def ret_def
           split: option.splits)

lemma migrate_one_to_one_mem: "preserves (\<lambda>t. Q (mem t)) (migrate_one_to_one p a d)"
  unfolding migrate_one_to_one_def
proof (rule preserves_seq)
  show "preserves (\<lambda>t. Q (mem t)) (related_alias_object p a d)"
    by (rule preserves_query) (rule related_alias_object_same)
  show "preserves (\<lambda>t. Q (mem t)) (case x of None \<Rightarrow> ret () | Some r \<Rightarrow> repoint p d r)" for x
    by (cases x) (simp_all add: preserves_ret repoint_mem)
qed

lemma seq_assoc: "seq (seq c f) g = seq c (\<lambda>x. seq (f x) g)"
  by (auto simp: seq_def fun_eq_iff split: prod.splits sum.splits)

lemma merge_alias_steps:
  "merge_alias m md ko p a bl =
     seq (migrate_relations m md p a) (\<lambda>_.
     seq (back_fill p a bl) (\<lambda>filled_up.
     seq (if \<not> ko then delete m a else ret ()) (\<lambda>_.
     ret (filter (\<lambda>n. n \<notin> set filled_up) bl))))"
  by (simp add: merge_alias_def migrate_relations_def seq_assoc)

lemma migrate_relations_mem: "preserves (\<lambda>t. Q (mem t)) (migrate_relations m md p a)"
  unfolding migrate_relations_def
  by (intro preserves_seq preserves_loop migrate_many_to_many_mem migrate_one_to_one_mem
        migrate_foreign_key_mem preserves_query migrate_local_fields_same)


subsection \<open>Back-fill\<close>



subsection \<open>Fields of the primary object that are not blank\<close>

lemma back_fill_keeps:
  assumes "n \<notin> set ns"
  shows "preserves (\<lambda>t. attrs (mem t p) n = Some v) (back_fill p a ns)"
  using assms
proof (induction ns)
  case Nil
  show ?case by (simp add: preserves_ret)
next
  case (Cons n' ns)
  then have ne: "n' \<noteq> n" and IH: "preserves (\<lambda>t. attrs (mem t p) n = Some v) (back_fill p a ns)"
    by auto
  have IH': "preserves (\<lambda>t. attrs (mem t p) n = Some v)
               (seq (back_fill p a ns) (\<lambda>filled_up. ret (n' # filled_up)))"
    by (intro preserves_seq IH preserves_ret)
  have "attrs (mem (snd (back_fill p a (n' # ns) s)) p) n = Some v"
    if K: "attrs (mem s p) n = Some v" for s
  proof (cases "getattr (mem s a) n'")
    case (Inl e)
    with K show ?thesis by simp
  next
    case (Inr w)
    show ?thesis
    proof (cases "blank w")
      case True
      with Inr preservesD [OF IH, of s] K show ?thesis by simp
    next
      case False
      from K ne have "attrs (mem (s\<lparr>mem := (mem s)(p := setattr (mem s p) n' w)\<rparr>) p) n = Some v"
        by (simp add: setattr_def)
      from preservesD [OF IH', of "s\<lparr>mem := (mem s)(p := setattr (mem s p) n' w)\<rparr>", OF this]
      show ?thesis using Inr False by simp
    qed
  qed
  then show ?case by (simp add: preserves_def)
qed

lemma delete_keeps:
  assumes "n \<noteq> ''id'' \<or> a \<noteq> p"
  shows "preserves (\<lambda>t. attrs (mem t p) n = Some v) (delete m a)"
  using assms by (auto simp: preserves_def delete_def setattr_def split: option.splits)

lemma merge_alias_InrE:
  assumes "merge_alias m md ko p a bl s = (Inr bl', s')"
  obtains t fu u where "migrate_relations m md p a s = (Inr (), t)"
    and "back_fill p a bl t = (Inr fu, u)"
    and "(if \<not> ko then delete m a else ret ()) u = (Inr (), s')"
    and "bl' = filter (\<lambda>n. n \<notin> set fu) bl"
proof -
  from assms obtain x t where 1: "migrate_relations m md p a s = (Inr x, t)"
    and r1: "seq (back_fill p a bl) (\<lambda>filled_up.
               seq (if \<not> ko then delete m a else ret ()) (\<lambda>_.
               ret (filter (\<lambda>n. n \<notin> set filled_up) bl))) t = (Inr bl', s')"
    unfolding merge_alias_steps by (rule seq_InrE)
  from r1 obtain fu u where 2: "back_fill p a bl t = (Inr fu, u)"
    and r2: "seq (if \<not> ko then delete m a else ret ()) (\<lambda>_.
               ret (filter (\<lambda>n. n \<notin> set fu) bl)) u = (Inr bl', s')"
    by (rule seq_InrE)
  from r2 obtain y w where 3: "(if \<not> ko then delete m a else ret ()) u = (Inr y, w)"
    and r3: "ret (filter (\<lambda>n. n \<notin> set fu) bl) w = (Inr bl', s')"
    by (rule seq_InrE)
  from r3 have "w = s'" and "bl' = filter (\<lambda>n. n \<notin> set fu) bl" by (simp_all add: ret_def)
  with 1 2 3 show thesis using that by simp
qed

lemma merge_alias_subset:
  assumes "merge_alias m md ko p a bl s = (Inr bl', s')"
  shows "set bl' \<subseteq> set bl" and "distinct bl \<Longrightarrow> distinct bl'"
  using assms by (auto elim!: merge_alias_InrE)

lemma merge_alias_keeps:
  assumes "n \<notin> set bl" and "n \<noteq> ''id'' \<or> ko \<or> a \<noteq> p"
  shows "preserves (\<lambda>t. attrs (mem t p) n = Some v) (merge_alias m md ko p a bl)"
  unfolding merge_alias_steps
proof (intro preserves_seq)
  show "preserves (\<lambda>t. attrs (mem t p) n = Some v) (migrate_relations m md p a)"
    by (rule migrate_relations_mem [of "\<lambda>h. attrs (h p) n = Some v"])
  show "preserves (\<lambda>t. attrs (mem t p) n = Some v) (back_fill p a bl)"
    using assms(1) by (rule back_fill_keeps)
  show "preserves (\<lambda>t. attrs (mem t p) n = Some v) (if \<not> ko then delete m a else ret ())"
    using assms(2) by (auto simp: preserves_ret intro: delete_keeps)
  show "preserves (\<lambda>t. attrs (mem t p) n = Some v) (ret (filter (\<lambda>n. n \<notin> set fu) bl))" for fu
    by (rule preserves_ret)
qed

lemma merge_aliases_keeps:
  assumes "n \<notin> set bl" and "n \<noteq> ''id'' \<or> ko \<or> p \<notin> set xs"
  shows "preserves (\<lambda>t. attrs (mem t p) n = Some v) (merge_aliases m md ko p xs bl)"
  using assms
proof (induction xs arbitrary: bl)
  case Nil
  show ?case by (simp add: preserves_ret)
next
  case (Cons a xs)
  show ?case
    unfolding merge_aliases.simps
  proof (rule preserves_seq_known)
    show "preserves (\<lambda>t. attrs (mem t p) n = Some v) (merge_alias m md ko p a bl)"
      using Cons.prems by (intro merge_alias_keeps) auto
    fix bl' s s' assume "merge_alias m md ko p a bl s = (Inr bl', s')"
    from merge_alias_subset(1) [OF this] Cons.prems(1) have "n \<notin> set bl'" by blast
    then show "preserves (\<lambda>t. attrs (mem t p) n = Some v) (merge_aliases m md ko p xs bl')"
      using Cons.prems(2) by (intro Cons.IH) auto
  qed
qed

lemma blank_names_set:
  assumes "blank_names x fs = Inr ns"
  shows "set ns = {attname f | f. f \<in> set fs \<and> (\<exists>v. attrs x (attname f) = Some v \<and> blank v)}"
  using assms
proof (induction fs arbitrary: ns)
  case Nil
  then show ?case by simp
next
  case (Cons f fs)
  from Cons.prems obtain v ns' where v: "attrs x (attname f) = Some v"
    and r: "blank_names x fs = Inr ns'" and ns: "ns = (if blank v then attname f # ns' else ns')"
    by (auto simp: getattr_def split: option.splits sum.splits)
  from Cons.IH [OF r] v ns show ?case by auto
qed

lemma blank_local_fields_set:
  assumes "blank_local_fields m x = Inr bl"
  shows "set bl = {attname f | f. f \<in> set (local_fields m (klass x))
                     \<and> (\<exists>v. attrs x (attname f) = Some v \<and> blank v)}"
    and "distinct bl"
proof -
  from assms obtain ns where ns: "blank_names x (local_fields m (klass x)) = Inr ns"
    and bl: "bl = remdups ns"
    by (auto simp: blank_local_fields_def split: sum.splits)
  from blank_names_set [OF ns] bl
  show "set bl = {attname f | f. f \<in> set (local_fields m (klass x))
                     \<and> (\<exists>v. attrs x (attname f) = Some v \<and> blank v)}"
    by simp
  from bl show "distinct bl" by simp
qed

lemma save_object_keeps:
  assumes "n \<noteq> ''id'' \<or> (\<exists>k. v = VInt k)"
  shows "preserves (\<lambda>t. attrs (mem t p) n = Some v) (save_object p)"
proof -
  have "attrs (mem (snd (save_object p s)) p) n = Some v" if K: "attrs (mem s p) n = Some v" for s
  proof (cases "pk (mem s p)")
    case (Some k)
    with K show ?thesis by (simp add: save_object_def seq_def save_def)
  next
    case None
    with assms K have "n \<noteq> ''id''" by (auto simp: pk_def)
    with None K show ?thesis by (simp add: save_object_def seq_def save_def setattr_def)
  qed
  then show ?thesis by (simp add: preserves_def)
qed

lemma merge_body_keeps:
  assumes "attrs (mem s p) n = Some v" and "\<not> blank v"
      and "n \<noteq> ''id'' \<or> (pk (mem s p) \<noteq> None \<and> (ko \<or> p \<notin> set (as_list al)))"
  shows "attrs (mem (snd (merge_body m p al md ko s)) p) n = Some v"
proof (cases "validate m (mem s p) (map (mem s) (as_list al))")
  case (Some e)
  with assms(1) show ?thesis by (simp add: merge_body_def)
next
  case None
  show ?thesis
  proof (cases "blank_local_fields m (mem s p)")
    case (Inl e)
    with None assms(1) show ?thesis by (simp add: merge_body_def)
  next
    case (Inr bl)
    from blank_local_fields_set(1) [OF Inr] assms(1,2) have nb: "n \<notin> set bl" by auto
    from assms(1,3) have k: "n \<noteq> ''id'' \<or> (\<exists>k. v = VInt k)"
      by (auto simp: pk_def split: option.splits val.splits)
    have "preserves (\<lambda>t. attrs (mem t p) n = Some v)
            (seq (merge_aliases m md ko p (as_list al) bl) (\<lambda>_.
             seq (save_object p) (\<lambda>_. (\<lambda>s'. (Inr (mem s' p), s')))))"
    proof (intro preserves_seq)
      show "preserves (\<lambda>t. attrs (mem t p) n = Some v) (merge_aliases m md ko p (as_list al) bl)"
        using nb assms(3) by (intro merge_aliases_keeps) auto
      show "preserves (\<lambda>t. attrs (mem t p) n = Some v) (save_object p)"
        using k by (rule save_object_keeps)
      show "preserves (\<lambda>t. attrs (mem t p) n = Some v) (\<lambda>s'. (Inr (mem s' p), s'))"
        by (simp add: preserves_def)
    qed
    from preservesD [OF this, of s] assms(1) None Inr show ?thesis
      by (simp add: merge_body_def)
  qed
qed

lemma merge_body_InrE:
  assumes "merge_body m p al md ko s = (Inr x, s')"
  obtains bl bl' t where "validate m (mem s p) (map (mem s) (as_list al)) = None"
    and "blank_local_fields m (mem s p) = Inr bl"
    and "merge_aliases m md ko p (as_list al) bl s = (Inr bl', t)"
    and "save_object p t = (Inr (), s')"
    and "x = mem s' p"
proof -
  from assms have v: "validate m (mem s p) (map (mem s) (as_list al)) = None"
    by (auto simp: merge_body_def Let_def split: option.splits)
  with assms obtain bl where bl: "blank_local_fields m (mem s p) = Inr bl"
    by (auto simp: merge_body_def Let_def split: sum.splits)
  with v assms have "seq (merge_aliases m md ko p (as_list al) bl) (\<lambda>_.
             seq (save_object p) (\<lambda>_. (\<lambda>s'. (Inr (mem s' p), s')))) s = (Inr x, s')"
    by (simp add: merge_body_def)
  then obtain bl' t where 1: "merge_aliases m md ko p (as_list al) bl s = (Inr bl', t)"
    and r: "seq (save_object p) (\<lambda>_. (\<lambda>s'. (Inr (mem s' p), s'))) t = (Inr x, s')"
    by (rule seq_InrE)
  from r have 2: "save_object p t = (Inr (), s')" and "x = mem s' p"
    by (auto elim!: seq_InrE)
  with v bl 1 show thesis using that by simp
qed

lemma merge_InrE:
  assumes "merge_model_objects m p al md ko s = (Inr x, s')"
  obtains bl bl' t where "validate m (mem s p) (map (mem s) (as_list al)) = None"
    and "blank_local_fields m (mem s p) = Inr bl"
    and "merge_aliases m md ko p (as_list al) bl s = (Inr bl', t)"
    and "save_object p t = (Inr (), s')"
    and "x = mem s' p"
proof -
  from assms have "merge_body m p al md ko s = (Inr x, s')"
    unfolding merge_model_objects_def by (rule atomic_InrD)
  then show thesis by (rule merge_body_InrE) (rule that)
qed

subsection \<open>Fields of the primary object that are blank\<close>






lemma first_non_blank_Some:
  "first_non_blank n xs = Some w \<Longrightarrow> \<not> blank w \<and> (\<exists>x\<in>set xs. attrs x n = Some w)"
  by (induction xs) (auto split: option.splits if_splits)

section \<open>Validation\<close>

text \<open>
  Claim C2, as amended. If the class of the primary object is not a subclass of
  \<open>Model\<close>, or some alias is not an instance of the class of the primary object (its
  class is neither that class nor a subclass of it), the call raises a type error, and
  the world after the call is the world before it: no row and no link has changed,
  the journal holds no new save or delete, and the objects in memory are as they were.
\<close>

theorem validation_error_before_mutation:
  assumes "\<not> issubclass m (klass (mem s p)) Model
           \<or> (\<exists>a\<in>set (as_list al). \<not> isinstance m (mem s a) (klass (mem s p)))"
  shows "\<exists>msg. merge_model_objects m p al md ko s = (Inl (TypeError msg), s)"
proof -
  from assms have "validate m (mem s p) (map (mem s) (as_list al)) \<noteq> None"
    by (auto simp: validate_None_iff)
  then obtain e where e: "validate m (mem s p) (map (mem s) (as_list al)) = Some e" by blast
  then obtain msg where "e = TypeError msg" using validate_TypeError by blast
  with e have "merge_body m p al md ko s = (Inl (TypeError msg), s)"
    by (simp add: merge_body_invalid)
  then show ?thesis
    by (auto simp: merge_model_objects_def dest: atomic_same)
qed

theorem validation_error_before_mutation_witness:
  "\<not> isinstance shop (mem db 4) (klass (mem db 0))
   \<and> (\<exists>msg. merge_model_objects shop 0 (Listed [1, 4]) True False db
              = (Inl (TypeError msg), db))"
proof -
  have h: "\<not> isinstance shop (mem db 4) (klass (mem db 0))"
    by code_simp
  then have "\<not> issubclass shop (klass (mem db 0)) Model
     \<or> (\<exists>a\<in>set (as_list (Listed [1, 4])). \<not> isinstance shop (mem db a) (klass (mem db 0)))"
    by simp
  from validation_error_before_mutation [OF this, of True False] h
  show ?thesis by blast
qed

text \<open>
  The claim as the specification states it asks for the error whenever an alias is not
  of the same concrete class as the primary object. An alias of a strict subclass is
  merged without an error.
\<close>

theorem subclass_alias_counterexample:
  "klass (mem db 2) \<noteq> klass (mem db 0)
   \<and> \<not> isl (fst (merge_model_objects shop 0 (Listed [2]) False False db))"
  by code_simp

section \<open>No aliases\<close>

text \<open>
  Claim C3. For a primary object that is a model instance and has all its local fields,
  merging the empty list of aliases returns the primary object as it was; the only call
  in the journal is one save of the primary object, the rows of all other keys, all
  links and all other objects in memory are as before. A primary object that has no key
  yet is inserted by that save, and is returned with the key of its new row.
\<close>

theorem merge_no_aliases:
  assumes "issubclass m (klass (mem s p)) Model"
      and "\<forall>f\<in>set (local_fields m (klass (mem s p))). attrs (mem s p) (attname f) \<noteq> None"
  shows "(\<forall>k. pk (mem s p) = Some k \<longrightarrow>
            merge_model_objects m p (Listed []) md ko s =
              (Inr (mem s p), s\<lparr>rows := save_row k (mem s p) (rows s),
                                journal := journal s @ [Saved k]\<rparr>)
            \<and> filter (\<lambda>r. pk r \<noteq> Some k) (save_row k (mem s p) (rows s))
                = filter (\<lambda>r. pk r \<noteq> Some k) (rows s))
         \<and> (pk (mem s p) = None \<longrightarrow>
              merge_model_objects m p (Listed []) md ko s =
                (Inr (setattr (mem s p) ''id'' (VInt (next_id s))),
                 s\<lparr>rows := rows s @ [setattr (mem s p) ''id'' (VInt (next_id s))],
                   next_id := next_id s + 1,
                   journal := journal s @ [Saved (next_id s)],
                   mem := (mem s)(p := setattr (mem s p) ''id'' (VInt (next_id s)))\<rparr>))"
proof -
  from assms(1) have v: "validate m (mem s p) (map (mem s) (as_list (Listed []))) = None"
    by (simp add: validate_None_iff)
  from blank_names_ok [OF assms(2)] obtain bl where "blank_local_fields m (mem s p) = Inr bl"
    by (auto simp: blank_local_fields_def)
  with v have b: "merge_body m p (Listed []) md ko s
                    = seq (save_object p) (\<lambda>_. (\<lambda>s'. (Inr (mem s' p), s'))) s"
    by (simp add: merge_body_def seq_ret)
  have "merge_model_objects m p (Listed []) md ko s =
          (Inr (mem s p), s\<lparr>rows := save_row k (mem s p) (rows s),
                            journal := journal s @ [Saved k]\<rparr>)"
    if "pk (mem s p) = Some k" for k
    using that b by (simp add: merge_model_objects_def atomic_def save_object_def save_def seq_def)
  moreover have "filter (\<lambda>r. pk r \<noteq> Some k) (save_row k (mem s p) (rows s))
                   = filter (\<lambda>r. pk r \<noteq> Some k) (rows s)"
    if "pk (mem s p) = Some k" for k
    using that by (rule save_row_others)
  moreover have "merge_model_objects m p (Listed []) md ko s =
                (Inr (setattr (mem s p) ''id'' (VInt (next_id s))),
                 s\<lparr>rows := rows s @ [setattr (mem s p) ''id'' (VInt (next_id s))],
                   next_id := next_id s + 1,
                   journal := journal s @ [Saved (next_id s)],
                   mem := (mem s)(p := setattr (mem s p) ''id'' (VInt (next_id s)))\<rparr>)"
    if "pk (mem s p) = None"
    using that b by (simp add: merge_model_objects_def atomic_def save_object_def save_def seq_def)
  ultimately show ?thesis by blast
qed

theorem merge_no_aliases_witness:
  "issubclass shop (klass (mem db 0)) Model
   \<and> list_all (\<lambda>f. attrs (mem db 0) (attname f) \<noteq> None) (local_fields shop (klass (mem db 0)))
   \<and> pk (mem db 0) = Some 1
   \<and> merge_model_objects shop 0 (Listed []) True False db =
           (Inr (mem db 0), db\<lparr>rows := save_row 1 (mem db 0) (rows db),
                               journal := journal db @ [Saved 1]\<rparr>)"
proof -
  have h1: "issubclass shop (klass (mem db 0)) Model" by code_simp
  have h2: "list_all (\<lambda>f. attrs (mem db 0) (attname f) \<noteq> None) (local_fields shop (klass (mem db 0)))"
    by code_simp
  then have h2': "\<forall>f\<in>set (local_fields shop (klass (mem db 0))). attrs (mem db 0) (attname f) \<noteq> None"
    by (simp add: list_all_iff)
  have h3: "pk (mem db 0) = Some 1" by code_simp
  show ?thesis
    using h1 h2 h3 merge_no_aliases [OF h1 h2', of True False] by blast
qed

section \<open>Aliases of a subclass\<close>

text \<open>
  Claim C9. When the primary object is a model instance and the class of every alias is
  the class of the primary object or a subclass of it, strict or not, the validation
  finds nothing and the call raises neither of the two validation errors: the merge goes
  on to its loop.
\<close>

theorem subclass_alias_accepted:
  assumes "issubclass m (klass (mem s p)) Model"
      and "\<forall>a\<in>set xs. issubclass m (klass (mem s a)) (klass (mem s p))"
  shows "validate m (mem s p) (map (mem s) xs) = None
         \<and> fst (merge_model_objects m p (Listed xs) md ko s)
             \<noteq> Inl (TypeError ''Only django.db.models.Model subclasses can be merged'')
         \<and> fst (merge_model_objects m p (Listed xs) md ko s)
             \<noteq> Inl (TypeError ''Only models of same class can be merged'')"
proof -
  from assms have v: "validate m (mem s p) (map (mem s) xs) = None"
    by (simp add: validate_None_iff isinstance_def)
  have "\<not> validation_error e" if "fst (merge_body m p (Listed xs) md ko s) = Inl e" for e
  proof -
    from that have "merge_body m p (Listed xs) md ko s
                      = (Inl e, snd (merge_body m p (Listed xs) md ko s))"
      by (simp add: prod_eq_iff)
    with v show ?thesis using merge_body_raises [of m p "Listed xs" md ko s e] by simp
  qed
  then have "fst (merge_model_objects m p (Listed xs) md ko s) \<noteq> Inl e" if "validation_error e" for e
    using that unfolding merge_model_objects_def atomic_fst by blast
  with v show ?thesis by (simp add: validation_error_def)
qed

theorem subclass_alias_accepted_witness:
  "klass (mem db 2) \<noteq> klass (mem db 0) \<and> issubclass shop (klass (mem db 2)) (klass (mem db 0))
   \<and> validate shop (mem db 0) (map (mem db) [2]) = None
   \<and> fst (merge_model_objects shop 0 (Listed [2]) False False db)
       \<noteq> Inl (TypeError ''Only models of same class can be merged'')
   \<and> journal (snd (merge_model_objects shop 0 (Listed [2]) False False db))
       = [Saved 11, Deleted 3, Saved 1]"
proof -
  have h1: "issubclass shop (klass (mem db 0)) Model" by code_simp
  have h2: "issubclass shop (klass (mem db 2)) (klass (mem db 0))" by code_simp
  then have h2': "\<forall>a\<in>set [2]. issubclass shop (klass (mem db a)) (klass (mem db 0))" by simp
  have h3: "klass (mem db 2) \<noteq> klass (mem db 0)" by code_simp
  have h4: "journal (snd (merge_model_objects shop 0 (Listed [2]) False False db))
       = [Saved 11, Deleted 3, Saved 1]" by code_simp
  from subclass_alias_accepted [OF h1 h2', of False False] h2 h3 h4
  show ?thesis by blast
qed

section \<open>Back-fill of blank fields\<close>

text \<open>
  Claim C4. A field of the primary object whose value before the call is neither
  \<^verbatim>\<open>None\<close> nor the empty string has the same value after the call, whether the
  call returns or raises, and in the object returned: back-fill writes no such field. For
  the key \<^verbatim>\<open>id\<close> this holds of a primary object that has a key and that is kept or
  is not itself one of the aliases. The key is not written by back-fill either: the
  deletion of an alias resets the key of that object, and the save that ends the call
  gives an object without a key a new one.
\<close>

theorem back_fill_keeps_non_blank:
  assumes "attrs (mem s p) n = Some v" and "\<not> blank v"
      and "n \<noteq> ''id'' \<or> (pk (mem s p) \<noteq> None \<and> (ko \<or> p \<notin> set (as_list al)))"
  shows "attrs (mem (snd (merge_model_objects m p al md ko s)) p) n = Some v
         \<and> (\<forall>x. fst (merge_model_objects m p al md ko s) = Inr x \<longrightarrow> attrs x n = Some v)"
proof -
  have k: "attrs (mem (snd (merge_model_objects m p al md ko s)) p) n = Some v"
    unfolding merge_model_objects_def atomic_mem by (rule merge_body_keeps [OF assms])
  moreover have "attrs x n = Some v" if "fst (merge_model_objects m p al md ko s) = Inr x" for x
  proof -
    from that have r: "merge_model_objects m p al md ko s
                      = (Inr x, snd (merge_model_objects m p al md ko s))"
      by (simp add: prod_eq_iff)
    then have "x = mem (snd (merge_model_objects m p al md ko s)) p"
      by (rule merge_InrE)
    with k show ?thesis by simp
  qed
  ultimately show ?thesis by blast
qed

theorem back_fill_keeps_non_blank_witness:
  "attrs (mem db 0) ''phone'' = Some (VStr ''555'') \<and> \<not> blank (VStr ''555'')
   \<and> attrs (mem db 1) ''phone'' = Some (VStr ''777'')
   \<and> \<not> isl (fst (merge_model_objects shop 0 (Listed [1, 2]) False False db))
   \<and> attrs (mem (snd (merge_model_objects shop 0 (Listed [1, 2]) False False db)) 0) ''phone''
       = Some (VStr ''555'')"
proof -
  have h1: "attrs (mem db 0) ''phone'' = Some (VStr ''555'')" by code_simp
  have h2: "\<not> blank (VStr ''555'')" by code_simp
  have h3: "attrs (mem db 1) ''phone'' = Some (VStr ''777'')" by code_simp
  have h4: "\<not> isl (fst (merge_model_objects shop 0 (Listed [1, 2]) False False db))" by code_simp
  have h5: "''phone'' \<noteq> ''id'' \<or> (pk (mem db 0) \<noteq> None \<and> (False \<or> 0 \<notin> set (as_list (Listed [1, 2]))))"
    by simp
  from back_fill_keeps_non_blank [OF h1 h2 h5, of shop False] h1 h2 h3 h4
  show ?thesis by blast
qed

text \<open>
  The key of a primary object that is itself among the aliases, and is deleted as one,
  is not kept: the object returned has the key of a new row.
\<close>

theorem primary_among_aliases_new_key:
  "attrs (mem db 0) ''id'' = Some (VInt 1)
   \<and> \<not> isl (fst (merge_model_objects shop 0 (Listed [0]) False False db))
   \<and> attrs (mem (snd (merge_model_objects shop 0 (Listed [0]) False False db)) 0) ''id''
       = Some (VInt 100)"
  by code_simp




section \<open>The flag \<^verbatim>\<open>migrate_data\<close>\<close>

lemma local_fields_loop_raises:
  assumes "f \<in> set fs" and "\<not> is_auto f"
  shows "for_each fs (migrate_local_field p a) s = (Inl (AttributeError ''get_accessor_name''), s)"
  using assms
proof (induction fs)
  case Nil
  then show ?case by simp
next
  case (Cons g fs)
  show ?case
  proof (cases "is_auto g")
    case True
    with Cons have "for_each fs (migrate_local_field p a) s
                      = (Inl (AttributeError ''get_accessor_name''), s)"
      by auto
    moreover from True have "migrate_local_field p a g = ret ()"
      by (simp add: migrate_local_field_def)
    ultimately show ?thesis by (simp add: seq_ret)
  next
    case False
    then have "migrate_local_field p a g = throw (AttributeError ''get_accessor_name'')"
      by (simp add: migrate_local_field_def)
    then show ?thesis by (simp add: seq_def throw_def)
  qed
qed

text \<open>
  Claim C7. With the flag set, the loop of lines 48 to 58 calls
  \<^verbatim>\<open>get_accessor_name()\<close> on the first local field of the first alias that is not an
  \<^verbatim>\<open>AutoField\<close>. A field has no such method: the call raises \<^verbatim>\<open>AttributeError\<close> at
  line 52, before any record is re-pointed, and the world is as it was.
\<close>

theorem migrate_data_raises:
  assumes "validate m (mem s p) (map (mem s) (a # rest)) = None"
      and "\<forall>f\<in>set (local_fields m (klass (mem s p))). attrs (mem s p) (attname f) \<noteq> None"
      and "f \<in> set (local_fields m (klass (mem s a)))" and "\<not> is_auto f"
  shows "merge_model_objects m p (Listed (a # rest)) True ko s
           = (Inl (AttributeError ''get_accessor_name''), s)"
proof -
  from blank_names_ok [OF assms(2)] obtain bl where bl: "blank_local_fields m (mem s p) = Inr bl"
    by (auto simp: blank_local_fields_def)
  from local_fields_loop_raises [OF assms(3,4)]
  have "migrate_local_fields m True p a s = (Inl (AttributeError ''get_accessor_name''), s)"
    by (simp add: migrate_local_fields_def)
  then have "merge_alias m True ko p a bl s = (Inl (AttributeError ''get_accessor_name''), s)"
    unfolding merge_alias_def by (rule seq_Inl)
  then have "merge_aliases m True ko p (a # rest) bl s
               = (Inl (AttributeError ''get_accessor_name''), s)"
    unfolding merge_aliases.simps by (rule seq_Inl)
  then have "seq (merge_aliases m True ko p (a # rest) bl) (\<lambda>_.
               seq (save_object p) (\<lambda>_. (\<lambda>s'. (Inr (mem s' p), s')))) s
               = (Inl (AttributeError ''get_accessor_name''), s)"
    by (rule seq_Inl)
  with assms(1) bl
  have "merge_body m p (Listed (a # rest)) True ko s = (Inl (AttributeError ''get_accessor_name''), s)"
    by (simp add: merge_body_def)
  then show ?thesis unfolding merge_model_objects_def by (rule atomic_same)
qed

text \<open>
  The merge of bob into alice: with the flag set the call raises and the post of bob
  still has bob as its author; without the flag the post is re-pointed to alice, by the
  loop of lines 86 to 92.
\<close>

theorem migrate_data_raises_witness:
  "validate shop (mem db 0) (map (mem db) [1]) = None
   \<and> list_all (\<lambda>f. attrs (mem db 0) (attname f) \<noteq> None) (local_fields shop (klass (mem db 0)))
   \<and> list_ex (\<lambda>f. attname f = ''email'' \<and> \<not> is_auto f) (local_fields shop (klass (mem db 1)))
   \<and> merge_model_objects shop 0 (Listed [1]) True False db
       = (Inl (AttributeError ''get_accessor_name''), db)
   \<and> field_of db 10 ''author'' = Some (VInt 2)
   \<and> field_of (snd (merge_model_objects shop 0 (Listed [1]) False False db)) 10 ''author''
       = Some (VInt 1)"
proof -
  have h1: "validate shop (mem db 0) (map (mem db) [1]) = None" by code_simp
  have h2: "list_all (\<lambda>f. attrs (mem db 0) (attname f) \<noteq> None) (local_fields shop (klass (mem db 0)))"
    by code_simp
  then have h2': "\<forall>f\<in>set (local_fields shop (klass (mem db 0))). attrs (mem db 0) (attname f) \<noteq> None"
    by (simp add: list_all_iff)
  have h3: "\<lparr>attname = ''email'', is_auto = False\<rparr> \<in> set (local_fields shop (klass (mem db 1)))"
    by (simp add: shop_def db_def heap_def bob_def user_fields_def)
  have h4: "\<not> is_auto \<lparr>attname = ''email'', is_auto = False\<rparr>" by simp
  have h5: "list_ex (\<lambda>f. attname f = ''email'' \<and> \<not> is_auto f) (local_fields shop (klass (mem db 1)))"
    by code_simp
  have h6: "field_of db 10 ''author'' = Some (VInt 2)" by code_simp
  have h7: "field_of (snd (merge_model_objects shop 0 (Listed [1]) False False db)) 10 ''author''
       = Some (VInt 1)" by code_simp
  from migrate_data_raises [OF h1 h2' h3 h4, of False] h1 h2 h5 h6 h7
  show ?thesis by blast
qed

text \<open>
  Claim C10. Back-fill is not done whatever the flag: in the merge of bob into alice the
  address of alice, blank before, is filled from bob when the flag is off; with the flag
  set the exception of line 52 ends the call before line 95 is reached, and the address
  is blank still.
\<close>

theorem back_fill_depends_on_flag:
  "attrs (mem db 0) ''email'' = Some (VStr [])
   \<and> \<not> isl (fst (merge_model_objects shop 0 (Listed [1]) False False db))
   \<and> attrs (mem (snd (merge_model_objects shop 0 (Listed [1]) False False db)) 0) ''email''
       = Some (VStr ''bob@example.com'')
   \<and> isl (fst (merge_model_objects shop 0 (Listed [1]) True False db))
   \<and> projl (fst (merge_model_objects shop 0 (Listed [1]) True False db))
       = AttributeError ''get_accessor_name''
   \<and> attrs (mem (snd (merge_model_objects shop 0 (Listed [1]) True False db)) 0) ''email''
       = Some (VStr [])"
  by code_simp

section \<open>References to a deleted alias\<close>

text \<open>
  Claim C1. The list of the generic foreign keys of all models is built by lines 37 to
  40 and is not read afterwards: no line re-points a generic reference. Teams have no
  field but their key, so that a merge with the flag set completes. In the merge of one
  team into another the player of the alias is re-pointed to the primary object and the
  alias is deleted, and the comment that refers to the alias through its generic foreign
  key refers to it as before.
\<close>

theorem generic_reference_left:
  "length (generic_fields shop) = 1
   \<and> pk (mem db 5) = Some 50 \<and> pk (mem db 6) = Some 51
   \<and> field_of db 31 ''content_type'' = Some (VStr ''Team'')
   \<and> field_of db 31 ''object_id'' = Some (VInt 51)
   \<and> \<not> isl (fst (merge_model_objects shop 5 (Listed [6]) True False db))
   \<and> 51 \<notin> set (keys (rows (snd (merge_model_objects shop 5 (Listed [6]) True False db))))
   \<and> field_of (snd (merge_model_objects shop 5 (Listed [6]) True False db)) 70 ''team''
       = Some (VInt 50)
   \<and> field_of (snd (merge_model_objects shop 5 (Listed [6]) True False db)) 31 ''content_type''
       = Some (VStr ''Team'')
   \<and> field_of (snd (merge_model_objects shop 5 (Listed [6]) True False db)) 31 ''object_id''
       = Some (VInt 51)"
  by code_simp

end
